theory Spec2Isabelle
  imports Main "HOL-Library.Word"
begin

section \<open>Machine integers and file-descriptor limits\<close>

text \<open>
  The code is compiled for a 64-bit target: \<open>size_t\<close> and \<open>ui64\<close> are 64-bit
  unsigned words, \<open>unsigned\<close> is a 32-bit unsigned word.  Arithmetic on words
  wraps around, as the C++ arithmetic on unsigned types does.  An atomic counter
  (\<open>TAtomicCounter\<close>) holds a 64-bit value; where the code passes its \<open>Val()\<close> to a
  \<open>size_t\<close> parameter the bits are kept, so a counter is a 64-bit word as well.
\<close>

type_synonym size_t = "64 word"
type_synonym unsigned_int = "32 word"

text \<open>
  Modelled from the spec: \<open>NHttp::TFdLimits\<close> is declared in \<open>http_common.h\<close>, which
  is not among the source files.  The data model of the specification gives it as
  \<open>{soft: size_t, hard: size_t}\<close> with \<open>soft < hard\<close>, \<open>delta() = hard - soft\<close> and
  \<open>exceed(current, limit) = max(0, current - limit)\<close>.
\<close>

record TFdLimits =
  Soft :: size_t
  Hard :: size_t

definition ExceedLimit :: "size_t \<Rightarrow> size_t \<Rightarrow> size_t" where
  "ExceedLimit val limit = (if limit < val then val - limit else 0)"

definition Delta :: "TFdLimits \<Rightarrow> size_t" where
  "Delta l = Hard l - Soft l"

section \<open>The input connection governor (\<open>TInputConnections\<close>)\<close>

record TInputConnections =
  Limits :: TFdLimits
  Counter :: size_t
  MaxUnusedConnKeepaliveTimeout :: unsigned_int
  MinUnusedConnKeepaliveTimeout :: unsigned_int

definition In_ExceedSoftLimit :: "TInputConnections \<Rightarrow> size_t" where
  "In_ExceedSoftLimit s = ExceedLimit (Counter s) (Soft (Limits s))"

definition In_ExceedHardLimit :: "TInputConnections \<Rightarrow> size_t" where
  "In_ExceedHardLimit s = ExceedLimit (Counter s) (Hard (Limits s))"

definition DeltaLimit :: "TInputConnections \<Rightarrow> size_t" where
  "DeltaLimit s = Delta (Limits s)"

text \<open>
  \<open>UnusedConnKeepaliveTimeout\<close>.  The product
  \<open>MaxUnusedConnKeepaliveTimeout * leftAvailableFd\<close> is computed in \<open>size_t\<close> (the
  \<open>unsigned\<close> operand is widened), the quotient is narrowed to \<open>unsigned\<close> by the
  \<open>static_cast\<close>.  The divisor \<open>d + 1\<close> is computed in \<open>size_t\<close> too and is zero
  for \<open>d = 2^64 - 1\<close>; an integer division by zero has no defined result in C++, which
  the model renders as \<open>None\<close>.
\<close>

definition UnusedConnKeepaliveTimeout :: "TInputConnections \<Rightarrow> unsigned_int option" where
  "UnusedConnKeepaliveTimeout s =
     (let e = In_ExceedSoftLimit s in
      if e \<noteq> 0 then
        (let d = DeltaLimit s;
             leftAvailableFd = ExceedLimit d e
         in if d + 1 = 0 then None
            else
              (let r = (ucast ((ucast (MaxUnusedConnKeepaliveTimeout s) * leftAvailableFd) div (d + 1)) :: unsigned_int)
               in Some (max r (MinUnusedConnKeepaliveTimeout s))))
      else Some (MaxUnusedConnKeepaliveTimeout s))"

text \<open>The constructor: counter 0, keep-alive bounds 120 s and 10 s.\<close>

definition TInputConnections_init :: "TFdLimits \<Rightarrow> TInputConnections" where
  "TInputConnections_init l =
     \<lparr>Limits = l, Counter = 0,
      MaxUnusedConnKeepaliveTimeout = 120, MinUnusedConnKeepaliveTimeout = 10\<rparr>"

definition SetFdLimits_in :: "size_t \<Rightarrow> size_t \<Rightarrow> TInputConnections \<Rightarrow> TInputConnections" where
  "SetFdLimits_in soft hard s = s\<lparr>Limits := \<lparr>Soft = soft, Hard = hard\<rparr>\<rparr>"

text \<open>
  The scenario S8 of the specification: limits \<open>soft = 10\<close>, \<open>hard = 100\<close>, the default
  keep-alive bounds, 55 live accepted sockets.
\<close>

definition S8_state :: TInputConnections where
  "S8_state = (SetFdLimits_in 10 100 (TInputConnections_init \<lparr>Soft = 0, Hard = 1\<rparr>))\<lparr>Counter := 55\<rparr>"

text \<open>
  The formula of section 4.D of the specification, in the specification's words and over
  unbounded natural numbers: \<open>e = counter - soft\<close>, \<open>d = hard - soft\<close>,
  \<open>left = max(0, d - e)\<close>, result \<open>max(min_keepalive_s, max_keepalive_s * left / (d + 1))\<close>.
  It is the reference the code is compared with.
\<close>

definition idle_keepalive_timeout_spec :: "nat \<Rightarrow> nat \<Rightarrow> nat \<Rightarrow> nat \<Rightarrow> nat \<Rightarrow> nat" where
  "idle_keepalive_timeout_spec counter soft hard min_keepalive_s max_keepalive_s =
     (if counter \<le> soft then max_keepalive_s
      else
        (let e = counter - soft;
             d = hard - soft;
             left = (if e \<le> d then d - e else 0)
         in max min_keepalive_s (max_keepalive_s * left div (d + 1))))"

text \<open>
  Two further states of the governor, both with the default keep-alive bounds.  In the
  first the hard limit is the largest \<open>size_t\<close> (a limit that is never reached), the soft
  limit is 10 and 11 sockets are live.  In the second the soft limit is 0 in addition, and
  one socket is live.
\<close>

definition unbounded_hard_state :: TInputConnections where
  "unbounded_hard_state =
     (SetFdLimits_in 10 18446744073709551615 (TInputConnections_init \<lparr>Soft = 0, Hard = 1\<rparr>))\<lparr>Counter := 11\<rparr>"

definition full_range_state :: TInputConnections where
  "full_range_state =
     (SetFdLimits_in 0 18446744073709551615 (TInputConnections_init \<lparr>Soft = 0, Hard = 1\<rparr>))\<lparr>Counter := 1\<rparr>"

definition small_state :: TInputConnections where
  "small_state =
     (SetFdLimits_in 2 5 (TInputConnections_init \<lparr>Soft = 0, Hard = 1\<rparr>))\<lparr>Counter := 4\<rparr>"

section \<open>Certificate hostname matching\<close>

text \<open>
  \<open>TString::to_lower\<close> is a member of the string class of the utility library
  (\<open>util/generic\<close>), which is not among the source files.  It changes the string in
  place, replacing the ASCII letters \<open>A\<close> to \<open>Z\<close> by \<open>a\<close> to \<open>z\<close>, and returns a \<open>bool\<close>:
  whether a character was changed.  The model returns that value together with the new
  content of the string.
\<close>

definition AsciiToLower :: "char \<Rightarrow> char" where
  "AsciiToLower c =
     (if 65 \<le> (of_char c :: nat) \<and> (of_char c :: nat) \<le> 90 then char_of (of_char c + 32 :: nat) else c)"

definition to_lower :: "string \<Rightarrow> bool \<times> string" where
  "to_lower s = (map AsciiToLower s \<noteq> s, map AsciiToLower s)"

text \<open>
  Modelled from the spec: \<open>TStringBuf::NextTok\<close> is declared in the same library, outside
  the source files.  The specification speaks of the labels of a name, the parts between
  dots: \<open>NextTok delim\<close> returns the text before the first \<open>delim\<close> and leaves the text
  after it in the buffer, and on a buffer without \<open>delim\<close> it returns the whole text and
  leaves the buffer empty (the loop \<open>while (kws)\<close> of \<open>ParseUserInfo\<close> relies on that).
  The model returns the token and the buffer left.
\<close>

definition NextTok :: "char \<Rightarrow> string \<Rightarrow> string \<times> string" where
  "NextTok delim s = (takeWhile (\<lambda>c. c \<noteq> delim) s, drop 1 (dropWhile (\<lambda>c. c \<noteq> delim) s))"

text \<open>
  \<open>EqualNoCase\<close>: equal lengths, and
  \<open>a.ToString().to_lower() == b.ToString().to_lower()\<close>.  Each side of \<open>==\<close> is the value
  that \<open>to_lower\<close> returns for a temporary copy, so the two flags are compared, not the
  two lower-cased strings.
\<close>

definition EqualNoCase :: "string \<Rightarrow> string \<Rightarrow> bool" where
  "EqualNoCase a b \<longleftrightarrow> length a = length b \<and> fst (to_lower a) = fst (to_lower b)"

definition MatchDomainName :: "string \<Rightarrow> string \<Rightarrow> bool" where
  "MatchDomainName tmpl name =
     (let (tmplFirst, tmplRest) = NextTok CHR ''.'' tmpl
      in if tmplFirst = ''*''
         then EqualNoCase tmplRest (snd (NextTok CHR ''.'' name))
         else EqualNoCase tmpl name)"

text \<open>
  The reference for the comparison, in the words of the claim: the labels of a name are
  its parts between dots; a template matches a hostname when both are equal ignoring ASCII
  case, or the first label of the template is \<open>*\<close> and its remaining labels equal the
  labels of the hostname after the first, ignoring ASCII case.
\<close>

fun labels :: "string \<Rightarrow> string list" where
  "labels [] = [[]]"
| "labels (c # cs) =
     (if c = CHR ''.'' then [] # labels cs
      else (case labels cs of l # ls \<Rightarrow> (c # l) # ls | [] \<Rightarrow> [[c]]))"

definition equal_ignoring_case :: "string \<Rightarrow> string \<Rightarrow> bool" where
  "equal_ignoring_case a b \<longleftrightarrow> map AsciiToLower a = map AsciiToLower b"

definition MatchDomainName_spec :: "string \<Rightarrow> string \<Rightarrow> bool" where
  "MatchDomainName_spec tmpl name \<longleftrightarrow>
     equal_ignoring_case tmpl name
     \<or> (hd (labels tmpl) = ''*''
        \<and> list_all2 equal_ignoring_case (tl (labels tmpl)) (tl (labels name)))"

section \<open>The output connection pool (\<open>TConnCache\<close>)\<close>

text \<open>
  A pooled socket.  \<open>SocketNotClosedByOtherSide\<close> is what
  \<open>TCont::SocketNotClosedByOtherSide\<close> answers for the socket when the code asks.
\<close>

record TSslSocketHolder =
  Fd :: nat
  SocketNotClosedByOtherSide :: bool

text \<open>
  Modelled from the spec: \<open>TAutoLockFreeQueue\<close> and \<open>TLockFreeSequence\<close> are declared
  outside the source files.  The specification describes a queue of idle connections per
  host id: \<open>Enqueue\<close> adds an entry, \<open>Dequeue\<close> takes one out and fails on an empty
  queue, \<open>Size\<close> is the number of entries (a \<open>size_t\<close>).  The model is a list whose head
  is the entry \<open>Dequeue\<close> takes next; \<open>Lst\<close> maps every index to its queue, as
  \<open>Lst_.Get(i)\<close> does.
\<close>

type_synonym TConnList = "TSslSocketHolder list"

definition Dequeue :: "TConnList \<Rightarrow> (TSslSocketHolder \<times> TConnList) option" where
  "Dequeue q = (case q of [] \<Rightarrow> None | x # xs \<Rightarrow> Some (x, xs))"

definition Enqueue :: "TSslSocketHolder \<Rightarrow> TConnList \<Rightarrow> TConnList" where
  "Enqueue x q = q @ [x]"

definition Size :: "TConnList \<Rightarrow> size_t" where
  "Size q = of_nat (length q)"

text \<open>
  The pool.  \<open>OutLimits\<close> is the member \<open>Limits\<close> of \<open>TConnCache\<close> (the name \<open>Limits\<close> is
  taken by the input governor).  The members of the purger thread (\<open>InPurging_\<close>, the
  mutex and the condition variable) are left out: no function modelled here reads them.
  The functions are modelled as they run alone, without another thread changing the pool
  in between.
\<close>

record TConnCache =
  OutLimits :: TFdLimits
  ActiveSockets :: size_t
  CachedSockets :: size_t
  Lst :: "nat \<Rightarrow> TConnList"
  MaxConnId :: size_t
  Shutdown :: bool

definition TotalSockets :: "TConnCache \<Rightarrow> size_t" where
  "TotalSockets s = ActiveSockets s + CachedSockets s"

definition Out_ExceedSoftLimit :: "TConnCache \<Rightarrow> size_t" where
  "Out_ExceedSoftLimit s = ExceedLimit (TotalSockets s) (Soft (OutLimits s))"

definition Out_ExceedHardLimit :: "TConnCache \<Rightarrow> size_t" where
  "Out_ExceedHardLimit s = ExceedLimit (TotalSockets s) (Hard (OutLimits s))"

subsection \<open>\<open>PurgeCache\<close>\<close>

text \<open>
  The state of one purge run: the pool, the local counter \<open>processed\<close> and the time
  spent in \<open>Sleep\<close>, in milliseconds.
\<close>

record TPurgeRun =
  Cache :: TConnCache
  processed :: "64 word"
  SleptMs :: nat

definition SetQueue :: "nat \<Rightarrow> TConnList \<Rightarrow> TPurgeRun \<Rightarrow> TPurgeRun" where
  "SetQueue i q st = st\<lparr>Cache := (Cache st)\<lparr>Lst := (Lst (Cache st))(i := q)\<rparr>\<rparr>"

text \<open>\<open>OnPurgeSocket\<close>: one entry less in the cache; a sleep of 10 ms before every 64th.\<close>

definition OnPurgeSocket :: "TPurgeRun \<Rightarrow> TPurgeRun" where
  "OnPurgeSocket st =
     st\<lparr>Cache := (Cache st)\<lparr>CachedSockets := CachedSockets (Cache st) - 1\<rparr>,
        processed := processed st + 1,
        SleptMs := (if and (processed st) 0x3f = 0 then SleptMs st + 10 else SleptMs st)\<rparr>"

text \<open>The loop \<open>while (purgeCounter-- && tc.Dequeue(&tmp)) OnPurgeSocket(processed)\<close>.\<close>

fun PurgeWhile :: "nat \<Rightarrow> nat \<Rightarrow> TPurgeRun \<Rightarrow> TPurgeRun" where
  "PurgeWhile 0 i st = st"
| "PurgeWhile (Suc purgeCounter) i st =
     (case Dequeue (Lst (Cache st) i) of
        None \<Rightarrow> st
      | Some (tmp, q) \<Rightarrow> PurgeWhile purgeCounter i (OnPurgeSocket (SetQueue i q st)))"

text \<open>The body of the \<open>for\<close> loop, for the queue with index \<open>i\<close>.\<close>

definition PurgeQueue :: "size_t \<Rightarrow> nat \<Rightarrow> TPurgeRun \<Rightarrow> TPurgeRun" where
  "PurgeQueue frac256 i st =
     (let tc = Lst (Cache st) i; qsize = Size tc in
      if qsize \<noteq> 0 then
        (let purgeCounter = drop_bit 8 (qsize * frac256) in
         if purgeCounter = 0 \<and> qsize \<noteq> 0 then
           (if qsize \<le> 2 then
              PurgeWhile (unat purgeCounter) i
                (case Dequeue tc of
                   None \<Rightarrow> st
                 | Some (res, q) \<Rightarrow>
                     if SocketNotClosedByOtherSide res then SetQueue i (Enqueue res q) st
                     else OnPurgeSocket (SetQueue i q st))
            else PurgeWhile 1 i st)
         else PurgeWhile (unat purgeCounter) i st)
      else st)"

text \<open>
  The \<open>for\<close> loop over the indices below \<open>MaxConnId_\<close>.  It ends: the body leaves
  \<open>MaxConnId_\<close> as it is, and the index grows.
\<close>

function PurgeLoop :: "size_t \<Rightarrow> nat \<Rightarrow> TPurgeRun \<Rightarrow> TPurgeRun" where
  "PurgeLoop frac256 i st =
     (if i < unat (MaxConnId (Cache st)) \<and> \<not> Shutdown (Cache st)
      then PurgeLoop frac256 (Suc i) (PurgeQueue frac256 i st)
      else st)"
  by pat_completeness auto
termination
proof (relation "measure (\<lambda>(frac256, i, st). unat (MaxConnId (Cache st)) - i)")
  show "wf (measure (\<lambda>(frac256, i, st). unat (MaxConnId (Cache st)) - i))"
    by simp
next
  fix frac256 :: size_t and i :: nat and st :: TPurgeRun
  assume run: "i < unat (MaxConnId (Cache st)) \<and> \<not> Shutdown (Cache st)"
  have loop: "MaxConnId (Cache (PurgeWhile n i st')) = MaxConnId (Cache st')" for n st'
    by (induction n i st' rule: PurgeWhile.induct)
       (auto simp: SetQueue_def OnPurgeSocket_def split: option.splits)
  have "MaxConnId (Cache (PurgeQueue frac256 i st)) = MaxConnId (Cache st)"
    by (auto simp: PurgeQueue_def Let_def loop SetQueue_def OnPurgeSocket_def
        split: option.splits)
  moreover from run have "i < unat (MaxConnId (Cache st))" by simp
  ultimately show "((frac256, Suc i, PurgeQueue frac256 i st), frac256, i, st)
      \<in> measure (\<lambda>(frac256, i, st). unat (MaxConnId (Cache st)) - i)"
    by simp
qed

declare PurgeLoop.simps [simp del]

text \<open>
  The fraction of the cache to purge, in 256ths, as the first statement of \<open>PurgeCache\<close>
  computes it.  The shift and the division are \<open>size_t\<close> operations.
\<close>

definition frac256_of :: "TConnCache \<Rightarrow> size_t" where
  "frac256_of s =
     min (max (256 div 32) (push_bit 8 (Out_ExceedSoftLimit s) div (CachedSockets s + 1))) 256"

text \<open>
  \<open>PurgeCache\<close>.  The divisor \<open>CachedSockets.Val() + 1\<close> is zero for a counter of \<open>-1\<close>;
  the division has no defined result then, which the model renders as \<open>None\<close>.
\<close>

definition PurgeCache :: "TConnCache \<Rightarrow> TPurgeRun option" where
  "PurgeCache s =
     (if CachedSockets s + 1 = 0 then None
      else Some (PurgeLoop (frac256_of s) 0 \<lparr>Cache = s, processed = 0, SleptMs = 0\<rparr>))"

text \<open>
  What a purge run does to one queue, and how many entries it takes out, read off the
  loop body.
\<close>

definition purged :: "size_t \<Rightarrow> TConnList \<Rightarrow> TConnList" where
  "purged frac256 q =
     (let qsize = Size q; purgeCounter = drop_bit 8 (qsize * frac256) in
      if qsize = 0 then q
      else if purgeCounter = 0 then
        (if qsize \<le> 2 then
           (case q of [] \<Rightarrow> q
            | res # q' \<Rightarrow> if SocketNotClosedByOtherSide res then q' @ [res] else q')
         else drop 1 q)
      else drop (unat purgeCounter) q)"

definition removed :: "size_t \<Rightarrow> TConnList \<Rightarrow> nat" where
  "removed frac256 q = length q - length (purged frac256 q)"

text \<open>
  The same count over natural numbers: of a queue of \<open>n\<close> entries the run removes the
  share \<open>n * fraction / 256\<close> rounded down if that is positive; otherwise one entry of a
  queue of more than two; otherwise (one or two entries) the first entry if its peer has
  closed it, and none if it is alive.  \<open>purge_fraction\<close> is the fraction of the
  specification, \<open>clamp(256/32, excess * 256 / (cached + 1), 256)\<close>.
\<close>

definition purge_count :: "nat \<Rightarrow> TConnList \<Rightarrow> nat" where
  "purge_count fraction q =
     (let n = length q; share = n * fraction div 256 in
      if n = 0 then 0
      else if 0 < share then share
      else if 2 < n then 1
      else if SocketNotClosedByOtherSide (hd q) then 0
      else 1)"

definition purge_fraction :: "nat \<Rightarrow> nat \<Rightarrow> nat" where
  "purge_fraction excess_over_soft_limit cached =
     min (max (256 div 32) (excess_over_soft_limit * 256 div (cached + 1))) 256"

text \<open>The count claimed: the share rounded up.\<close>

definition ceiling_div :: "nat \<Rightarrow> nat \<Rightarrow> nat" where
  "ceiling_div a b = (a + b - 1) div b"

subsection \<open>\<open>Connect\<close>\<close>

text \<open>
  The errors \<open>Connect\<close> reports: "neh::https output connections limit reached",
  "directo connection failed" and "can not connect to" the address.
\<close>

datatype TError = OutputLimitReached | DirectConnectionFailed | CanNotConnect

text \<open>A resolved host; \<open>HostId\<close> is its member \<open>Id\<close>, the index of its queue.\<close>

record TResolvedHost =
  HostId :: size_t

record TConnection =
  Socket :: TSslSocketHolder
  ReUsed :: bool
  Host :: TResolvedHost

text \<open>
  The connector jobs: \<open>TConnector(host)\<close> creates a fresh connection,
  \<open>TConnector(host, s)\<close> continues connecting the socket \<open>s\<close>.
\<close>

datatype IJob = TConnector TResolvedHost | TConnector_continue TResolvedHost TSslSocketHolder

text \<open>
  What \<open>Connect\<close> does outside the pool: the sockets it creates with \<open>c->Socket\<close> and the
  jobs it hands to the executor or the job queue.
\<close>

record TWorld =
  SocketsCreated :: nat
  Jobs :: "IJob list"

text \<open>
  What the coroutine \<open>c\<close> answers during one call: whether \<open>Executor()->Create\<close> throws,
  the socket \<open>c->Socket\<close> returns, the time \<open>TInstant::Now()\<close> in microseconds, the result
  of \<open>ConnectD\<close> and the results of the calls of \<open>PollD\<close> that follow, in order.  A null
  \<open>c\<close> is \<open>None\<close>.  A call that needs more results of \<open>PollD\<close> than the list holds has
  not returned within the events given: its result is \<open>None\<close>.
\<close>

record TCont =
  CreateThrows :: bool
  NewSocket :: TSslSocketHolder
  Now :: nat
  ConnectD_ret :: int
  PollD_rets :: "int list"

text \<open>The error numbers, with their values on Linux.\<close>

definition ETIMEDOUT :: int where "ETIMEDOUT = 110"
definition EINTR :: int where "EINTR = 4"
definition EAGAIN :: int where "EAGAIN = 11"

definition ConnList :: "TConnCache \<Rightarrow> TResolvedHost \<Rightarrow> TConnList" where
  "ConnList s addr = Lst s (unat (HostId addr))"

definition SetConnList :: "TResolvedHost \<Rightarrow> TConnList \<Rightarrow> TConnCache \<Rightarrow> TConnCache" where
  "SetConnList addr q s = s\<lparr>Lst := (Lst s)(unat (HostId addr) := q)\<rparr>"

definition ExecutorCreate :: "TCont \<Rightarrow> IJob \<Rightarrow> TWorld \<Rightarrow> TWorld" where
  "ExecutorCreate c job w = (if CreateThrows c then w else w\<lparr>Jobs := Jobs w @ [job]\<rparr>)"

definition Schedule :: "IJob \<Rightarrow> TWorld \<Rightarrow> TWorld" where
  "Schedule job w = w\<lparr>Jobs := Jobs w @ [job]\<rparr>"

definition NewConnection :: "TSslSocketHolder \<Rightarrow> bool \<Rightarrow> TResolvedHost \<Rightarrow> TConnCache \<Rightarrow> TConnection \<times> TConnCache" where
  "NewConnection res reUsed addr s =
     (\<lparr>Socket = res, ReUsed = reUsed, Host = addr\<rparr>, s\<lparr>ActiveSockets := ActiveSockets s + 1\<rparr>)"

type_synonym connect_result = "(TError + TConnection) option \<times> TConnCache \<times> TWorld"

fun DequeueLive :: "TResolvedHost \<Rightarrow> TConnList \<Rightarrow> TConnCache \<Rightarrow> TSslSocketHolder option \<times> TConnCache" where
  "DequeueLive addr [] s = (None, SetConnList addr [] s)"
| "DequeueLive addr (res # q) s =
     (let s' = (SetConnList addr q s)\<lparr>CachedSockets := CachedSockets s - 1\<rparr> in
      if SocketNotClosedByOtherSide res then (Some res, s') else DequeueLive addr q s')"

fun ConnectRetry ::
  "TCont \<Rightarrow> TResolvedHost \<Rightarrow> TSslSocketHolder \<Rightarrow> int \<Rightarrow> nat \<Rightarrow> nat \<Rightarrow> int list
     \<Rightarrow> TConnCache \<Rightarrow> TWorld \<Rightarrow> connect_result" where
  "ConnectRetry c addr res ret delay checkpoint polls s w =
     (let deadline = Now c + 10000000 in
      if (ret = ETIMEDOUT \<or> ret = EINTR) \<and> checkpoint < deadline then
        (let delay' = delay + delay;
             checkpoint' = min deadline (Now c + delay');
             (adopted, s') =
               (case Dequeue (ConnList s addr) of
                  None \<Rightarrow> (None, s)
                | Some (res2, q) \<Rightarrow>
                    (let s1 = (SetConnList addr q s)\<lparr>CachedSockets := CachedSockets s - 1\<rparr> in
                     if SocketNotClosedByOtherSide res2 then (Some res2, s1) else (None, s1)))
         in case adopted of
              Some res2 \<Rightarrow>
                (let w' = ExecutorCreate c (TConnector_continue addr res) w;
                     (conn, s'') = NewConnection res2 False addr s'
                 in (Some (Inr conn), s'', w'))
            | None \<Rightarrow>
                (case polls of
                   [] \<Rightarrow> (None, s', w)
                 | ret' # polls' \<Rightarrow>
                     if ret' \<noteq> 0 then ConnectRetry c addr res ret' delay' checkpoint' polls' s' w
                     else (let (conn, s'') = NewConnection res False addr s'
                           in (Some (Inr conn), s'', w))))
      else (Some (Inl CanNotConnect), s, w))"

definition Connect :: "TCont option \<Rightarrow> TResolvedHost \<Rightarrow> TConnCache \<Rightarrow> TWorld \<Rightarrow> connect_result" where
  "Connect c addr s w =
     (if Out_ExceedHardLimit s \<noteq> 0 then (Some (Inl OutputLimitReached), s, w)
      else
        (case DequeueLive addr (ConnList s addr) s of
           (Some res, s') \<Rightarrow>
             (let w' =
                (if Size (ConnList s' addr) = 0 then
                   (case c of
                      Some cont \<Rightarrow> ExecutorCreate cont (TConnector addr) w
                    | None \<Rightarrow> Schedule (TConnector addr) w)
                 else w);
                  (conn, s'') = NewConnection res True addr s'
              in (Some (Inr conn), s'', w'))
         | (None, s') \<Rightarrow>
             (case c of
                None \<Rightarrow> (Some (Inl DirectConnectionFailed), s', w)
              | Some cont \<Rightarrow>
                  (let w1 = ExecutorCreate cont (TConnector addr) w;
                       res = NewSocket cont;
                       w2 = w1\<lparr>SocketsCreated := SocketsCreated w1 + 1\<rparr>;
                       deadline = Now cont + 10000000;
                       delay = 8000;
                       checkpoint = min deadline (Now cont + delay);
                       ret = ConnectD_ret cont
                   in if ret \<noteq> 0
                      then ConnectRetry cont addr res ret delay checkpoint (PollD_rets cont) s' w2
                      else (let (conn, s'') = NewConnection res False addr s'
                            in (Some (Inr conn), s'', w2))))))"

declare ConnectRetry.simps [simp del]

subsection \<open>Pools for the examples\<close>

definition sock :: "nat \<Rightarrow> bool \<Rightarrow> TSslSocketHolder" where
  "sock fd alive = \<lparr>Fd = fd, SocketNotClosedByOtherSide = alive\<rparr>"

definition three_cached :: TConnCache where
  "three_cached =
     \<lparr>OutLimits = \<lparr>Soft = 1, Hard = 10\<rparr>, ActiveSockets = 0, CachedSockets = 3,
      Lst = (\<lambda>_. [])(0 := [sock 3 True, sock 4 True, sock 5 True]),
      MaxConnId = 1, Shutdown = False\<rparr>"

definition one_cached :: TConnCache where
  "one_cached =
     \<lparr>OutLimits = \<lparr>Soft = 1, Hard = 10\<rparr>, ActiveSockets = 1, CachedSockets = 1,
      Lst = (\<lambda>_. [])(0 := [sock 7 True]),
      MaxConnId = 1, Shutdown = False\<rparr>"

definition two_hosts :: TConnCache where
  "two_hosts =
     \<lparr>OutLimits = \<lparr>Soft = 2, Hard = 10\<rparr>, ActiveSockets = 0, CachedSockets = 4,
      Lst = (\<lambda>_. [])(0 := [sock 3 False], 1 := [sock 4 True, sock 5 True, sock 6 True]),
      MaxConnId = 2, Shutdown = False\<rparr>"

definition empty_pool :: TConnCache where
  "empty_pool =
     \<lparr>OutLimits = \<lparr>Soft = 0, Hard = 1\<rparr>, ActiveSockets = 0, CachedSockets = 0,
      Lst = (\<lambda>_. []), MaxConnId = 0, Shutdown = False\<rparr>"

definition quiet_world :: TWorld where
  "quiet_world = \<lparr>SocketsCreated = 0, Jobs = []\<rparr>"

definition ready_cont :: "nat \<Rightarrow> TCont" where
  "ready_cont fd = \<lparr>CreateThrows = False, NewSocket = sock fd True, Now = 0, ConnectD_ret = 0, PollD_rets = []\<rparr>"

text \<open>
  The pool of scenario S6: limit \<open>hard = 1\<close>, after one connection was handed out; and the
  same pool after a second one was handed out.
\<close>

definition one_in_flight :: TConnCache where
  "one_in_flight = fst (snd (Connect (Some (ready_cont 3)) \<lparr>HostId = 0\<rparr> empty_pool quiet_world))"

definition two_in_flight :: TConnCache where
  "two_in_flight = fst (snd (Connect (Some (ready_cont 4)) \<lparr>HostId = 1\<rparr> one_in_flight quiet_world))"

section \<open>The cooperative bio (\<open>TContBIO\<close>)\<close>

text \<open>
  The value that \<open>BIOReadMethod\<close> returns for a cancelled request.
\<close>

definition SSL_RVAL_TIMEOUT :: int where
  "SSL_RVAL_TIMEOUT = - 42"

text \<open>
  Modelled from the spec: \<open>TContIOStatus\<close> is declared in the coroutine library, which is
  not among the source files.  It is what \<open>ReadI\<close> and \<open>ReadT\<close> return: the number of
  bytes moved, \<open>Processed()\<close>, and an error number, \<open>Status()\<close>, zero on success.
\<close>

record TContIOStatus =
  Processed :: size_t
  Status :: int

text \<open>
  The bio.  \<open>Timeout\<close> is the member \<open>Timeout_\<close>, in microseconds (a \<open>ui64\<close>); \<open>Canceled\<close>
  tells whether a cancellation flag is attached (\<open>Canceled_\<close> is not null), \<open>Cont\<close> whether
  a coroutine is bound (\<open>Cont_\<close> is not null).
\<close>

record TContBIO =
  Timeout :: "64 word"
  S :: nat
  Canceled :: bool
  Cont :: bool

text \<open>The constructor: the timeout is 10000 microseconds, no coroutine is bound.\<close>

definition TContBIO_init :: "nat \<Rightarrow> bool \<Rightarrow> TContBIO" where
  "TContBIO_init s canceled = \<lparr>Timeout = 10000, S = s, Canceled = canceled, Cont = False\<rparr>"

definition AcquireCont :: "TContBIO \<Rightarrow> TContBIO" where
  "AcquireCont conn = conn\<lparr>Cont := True\<rparr>"

definition ReleaseCont :: "TContBIO \<Rightarrow> TContBIO" where
  "ReleaseCont conn = conn\<lparr>Cont := False\<rparr>"

text \<open>
  The conversion of the \<open>size_t\<close> that \<open>Processed()\<close> returns to the \<open>int\<close> that
  \<open>BIOReadMethod\<close> returns: the low 32 bits, read as two's complement.
\<close>

definition to_int :: "size_t \<Rightarrow> int" where
  "to_int n =
     (let m = unat n mod 2 ^ 32 in if m < 2 ^ 31 then int m else int m - 2 ^ 32)"

text \<open>
  The new timeout after a poll that timed out:
  \<open>Min<ui64>(1000000, Timeout_ + (Timeout_ >> 1))\<close>.
\<close>

definition NextTimeout :: "64 word \<Rightarrow> 64 word" where
  "NextTimeout t = min 1000000 (t + drop_bit 1 t)"

text \<open>
  Both loops of \<open>BIOReadMethod\<close> run until the socket or the flag lets them return.  The
  model runs them against the events of the call, in order: for the loop without
  cancellation the results of \<open>ReadI\<close>; for the loop with cancellation, per iteration,
  the value of the flag when it is read and the result of \<open>ReadT\<close> if the loop polls.
  A call that needs more events than are given has not returned within them: its result
  is \<open>None\<close>.  The third component of a result lists the timeouts the call polled with.
\<close>

type_synonym read_result = "int option \<times> TContBIO \<times> 64 word list"

fun ReadI_loop :: "TContIOStatus list \<Rightarrow> int option" where
  "ReadI_loop [] = None"
| "ReadI_loop (done # evs) =
     (if EAGAIN \<noteq> Status done then Some (to_int (Processed done)) else ReadI_loop evs)"

fun ReadT_loop :: "TContBIO \<Rightarrow> (bool \<times> TContIOStatus) list \<Rightarrow> read_result" where
  "ReadT_loop conn [] = (None, conn, [])"
| "ReadT_loop conn ((canceled, ioStat) # evs) =
     (if canceled then (Some SSL_RVAL_TIMEOUT, conn, [])
      else if Status ioStat = ETIMEDOUT then
        (case ReadT_loop (conn\<lparr>Timeout := NextTimeout (Timeout conn)\<rparr>) evs of
           (r, conn', polls) \<Rightarrow> (r, conn', Timeout conn # polls))
      else (Some (to_int (Processed ioStat)), conn, [Timeout conn]))"

definition BIOReadMethod :: "TContBIO option \<Rightarrow> (bool \<times> TContIOStatus) list \<Rightarrow> int option \<times> TContBIO option \<times> 64 word list" where
  "BIOReadMethod ptr evs =
     (case ptr of
        None \<Rightarrow> (Some (- 1), None, [])
      | Some conn \<Rightarrow>
          if \<not> Cont conn then (Some (- 1), Some conn, [])
          else if \<not> Canceled conn then (ReadI_loop (map snd evs), Some conn, [])
          else (case ReadT_loop conn evs of (r, conn', polls) \<Rightarrow> (r, Some conn', polls)))"

text \<open>
  Events for the examples: a poll that times out while the flag is clear, and a poll that
  reads \<open>n\<close> bytes while the flag is clear.  A bio fresh from the constructor, bound to a
  coroutine, with a cancellation flag attached; a first read on it that times out once
  and then reads 5 bytes; and a second read on the bio as the first left it.
\<close>

definition timed_out :: "bool \<times> TContIOStatus" where
  "timed_out = (False, \<lparr>Processed = 0, Status = ETIMEDOUT\<rparr>)"

definition got :: "size_t \<Rightarrow> bool \<times> TContIOStatus" where
  "got n = (False, \<lparr>Processed = n, Status = 0\<rparr>)"

definition fresh_bio :: TContBIO where
  "fresh_bio = AcquireCont (TContBIO_init 7 True)"

definition first_read :: "int option \<times> TContBIO option \<times> 64 word list" where
  "first_read = BIOReadMethod (Some fresh_bio) [timed_out, got 5]"

definition second_read :: "int option \<times> TContBIO option \<times> 64 word list" where
  "second_read = BIOReadMethod (fst (snd first_read)) [got 3]"

section \<open>The server: requests dropped without a response\<close>


datatype TResponseError =
  BadRequest | Forbidden | NotExistService | TooManyRequests | InternalError
| NotImplemented | BadGateway | ServiceUnavailable | BandwidthLimitExceeded















section \<open>Facts about the governor\<close>

lemma unat_ExceedLimit: "unat (ExceedLimit v l) = unat v - unat l"
  by (simp add: ExceedLimit_def unat_sub word_less_nat_alt word_le_nat_alt)

lemma ExceedLimit_eq_0: "ExceedLimit v l = 0 \<longleftrightarrow> v \<le> l"
proof -
  have "ExceedLimit v l = 0 \<longleftrightarrow> unat (ExceedLimit v l) = 0"
    by (simp add: unat_eq_zero)
  then show ?thesis
    by (simp add: unat_ExceedLimit word_le_nat_alt)
qed

lemma unat_succ: "d + 1 \<noteq> 0 \<Longrightarrow> unat (d + 1) = unat d + 1" for d :: "'a::len word"
  using unatSuc [of d] by (simp add: add.commute)

lemma unat_widen: "unat (ucast (x :: unsigned_int) :: size_t) = unat x"
proof -
  have "unat x < 2 ^ 32" using unsigned_less [of x, where 'a = nat] by simp
  then have "unat x < 2 ^ 64" by simp
  then show ?thesis by (simp add: unsigned_ucast_eq take_bit_nat_eq_self)
qed

lemma wrapped_quotient_le:
  fixes m l d k :: nat
  assumes "l \<le> d"
  shows "(m * l) mod k div (d + 1) \<le> m"
proof -
  have "(m * l) mod k \<le> m * l" by simp
  also have "\<dots> \<le> m * (d + 1)"
  proof (rule mult_le_mono2)
    show "l \<le> d + 1" using assms by simp
  qed
  finally have "(m * l) mod k div (d + 1) \<le> m * (d + 1) div (d + 1)"
    by (rule div_le_mono)
  also have "m * (d + 1) div (d + 1) = m"
    by (rule nonzero_mult_div_cancel_right) simp
  finally show ?thesis .
qed

text \<open>The quotient never exceeds the upper keep-alive bound, whether the product wraps or not.\<close>

lemma keepalive_quotient_le:
  fixes m :: unsigned_int and d e :: size_t
  assumes "d + 1 \<noteq> 0"
  shows "unat ((ucast m * ExceedLimit d e) div (d + 1)) \<le> unat m"
proof -
  have le: "unat (ExceedLimit d e) \<le> unat d" by (simp add: unat_ExceedLimit)
  have "unat ((ucast m * ExceedLimit d e) div (d + 1))
      = (unat m * unat (ExceedLimit d e)) mod 2 ^ 64 div (unat d + 1)"
    using assms by (simp add: unat_div unat_word_ariths(2) unat_succ unat_widen)
  also have "\<dots> \<le> unat m" using le by (rule wrapped_quotient_le)
  finally show ?thesis .
qed

text \<open>Hence the narrowing cast to \<open>unsigned\<close> loses nothing.\<close>

lemma keepalive_narrow:
  fixes m :: unsigned_int and d e :: size_t
  assumes "d + 1 \<noteq> 0"
  shows "unat (ucast ((ucast m * ExceedLimit d e) div (d + 1)) :: unsigned_int)
       = unat ((ucast m * ExceedLimit d e) div (d + 1))"
proof -
  have "unat ((ucast m * ExceedLimit d e) div (d + 1)) \<le> unat m"
    using assms by (rule keepalive_quotient_le)
  moreover have "unat m < 2 ^ 32" using unsigned_less [of m, where 'a = nat] by simp
  ultimately have "unat ((ucast m * ExceedLimit d e) div (d + 1)) < 2 ^ 32" by simp
  then show ?thesis by (simp add: unsigned_ucast_eq take_bit_nat_eq_self)
qed

lemmas governor_defs =
  UnusedConnKeepaliveTimeout_def In_ExceedSoftLimit_def DeltaLimit_def Delta_def
  ExceedLimit_def SetFdLimits_in_def TInputConnections_init_def Let_def

text \<open>
  Claim C5, as stated: in scenario S8 the computed idle timeout is
  \<open>120 * (100 - 55 - 10) / (100 - 10 + 1)\<close>, about 47 seconds.  The code does not compute
  that value: the statement fails for the quotient \<open>46\<close> of the formula as well as for
  its rounding \<open>47\<close>.
\<close>

theorem S8_timeout_counterexample:
  "UnusedConnKeepaliveTimeout S8_state \<noteq> Some (of_nat (120 * (100 - 55 - 10) div (100 - 10 + 1)))
   \<and> UnusedConnKeepaliveTimeout S8_state \<noteq> Some 47"
  by (simp add: S8_state_def governor_defs)

text \<open>
  Claim C5, amended: in scenario S8 the excess over the soft limit is \<open>55 - 10\<close>, the
  descriptors left are \<open>(100 - 10) - (55 - 10) = 100 - 55\<close>, and the computed idle
  timeout is \<open>120 * (100 - 55) / (100 - 10 + 1) = 59\<close> seconds (integer division), which
  is not below the lower bound of 10 seconds.
\<close>

theorem S8_timeout:
  "UnusedConnKeepaliveTimeout S8_state = Some (of_nat (120 * (100 - 55) div (100 - 10 + 1)))
   \<and> UnusedConnKeepaliveTimeout S8_state = Some 59
   \<and> MinUnusedConnKeepaliveTimeout S8_state = 10
   \<and> MinUnusedConnKeepaliveTimeout S8_state \<le> 59"
  by (simp add: S8_state_def governor_defs)

text \<open>
  Claim C6, as stated: for every state the result is the formula of the specification.
  With the hard limit at the largest \<open>size_t\<close>, soft limit 10 and 11 live sockets the
  product \<open>120 * left\<close> does not fit 64 bits and wraps around: the code returns the lower
  bound 10, the formula gives 119.
\<close>

theorem keepalive_formula_counterexample:
  "Soft (Limits unbounded_hard_state) < Hard (Limits unbounded_hard_state)
   \<and> map_option unat (UnusedConnKeepaliveTimeout unbounded_hard_state) = Some 10
   \<and> idle_keepalive_timeout_spec
        (unat (Counter unbounded_hard_state))
        (unat (Soft (Limits unbounded_hard_state)))
        (unat (Hard (Limits unbounded_hard_state)))
        (unat (MinUnusedConnKeepaliveTimeout unbounded_hard_state))
        (unat (MaxUnusedConnKeepaliveTimeout unbounded_hard_state)) = 119"
  by (simp add: unbounded_hard_state_def governor_defs idle_keepalive_timeout_spec_def)

text \<open>
  Claim C6, amended: for every state of the input governor with \<open>soft < hard\<close> in which
  either \<open>counter \<le> soft\<close>, or the product \<open>max_keepalive_s * left\<close> fits 64 bits and
  \<open>d + 1\<close> does not wrap to zero, the result is the formula of the specification:
  \<open>max_keepalive_s\<close> if \<open>counter \<le> soft\<close>, and otherwise
  \<open>max(min_keepalive_s, max_keepalive_s * left / (d + 1))\<close> with \<open>e = counter - soft\<close>,
  \<open>d = hard - soft\<close>, \<open>left = max(0, d - e)\<close>.
\<close>

theorem keepalive_formula:
  assumes wf: "Soft (Limits s) < Hard (Limits s)"
    and nov: "Counter s \<le> Soft (Limits s) \<or>
       (unat (MaxUnusedConnKeepaliveTimeout s)
           * unat (ExceedLimit (Delta (Limits s)) (ExceedLimit (Counter s) (Soft (Limits s)))) < 2 ^ 64
        \<and> Delta (Limits s) + 1 \<noteq> 0)"
  shows "map_option unat (UnusedConnKeepaliveTimeout s) =
         Some (idle_keepalive_timeout_spec (unat (Counter s)) (unat (Soft (Limits s)))
                 (unat (Hard (Limits s))) (unat (MinUnusedConnKeepaliveTimeout s))
                 (unat (MaxUnusedConnKeepaliveTimeout s)))"
proof (cases "Counter s \<le> Soft (Limits s)")
  case True
  then have "ExceedLimit (Counter s) (Soft (Limits s)) = 0"
    by (simp add: ExceedLimit_eq_0)
  with True show ?thesis
    by (simp add: UnusedConnKeepaliveTimeout_def In_ExceedSoftLimit_def Let_def
        idle_keepalive_timeout_spec_def word_le_nat_alt)
next
  case False
  let ?d = "Delta (Limits s)"
  let ?e = "ExceedLimit (Counter s) (Soft (Limits s))"
  let ?m = "MaxUnusedConnKeepaliveTimeout s"
  let ?q = "(ucast ?m * ExceedLimit ?d ?e) div (?d + 1)"
  from False nov have ov: "unat ?m * unat (ExceedLimit ?d ?e) < 2 ^ 64" and dz: "?d + 1 \<noteq> 0"
    by auto
  from False have e: "?e \<noteq> 0" by (simp add: ExceedLimit_eq_0)
  have d: "unat ?d = unat (Hard (Limits s)) - unat (Soft (Limits s))"
    using wf by (simp add: Delta_def unat_sub word_less_nat_alt word_le_nat_alt)
  have q: "unat ?q = unat ?m * (unat ?d - unat ?e) div (unat ?d + 1)"
    using ov dz by (simp add: unat_div unat_word_ariths(2) unat_succ unat_widen unat_ExceedLimit)
  have res: "UnusedConnKeepaliveTimeout s = Some (max (ucast ?q) (MinUnusedConnKeepaliveTimeout s))"
    using e dz
    by (simp add: UnusedConnKeepaliveTimeout_def In_ExceedSoftLimit_def DeltaLimit_def Let_def)
  have mx: "unat (max a b) = max (unat a) (unat b)" for a b :: unsigned_int
    by (simp add: max_def word_le_nat_alt)
  show ?thesis
    using False dz
    by (simp add: res mx keepalive_narrow q d unat_ExceedLimit idle_keepalive_timeout_spec_def
        Let_def word_le_nat_alt max.commute)
qed

theorem keepalive_formula_witness:
  "Soft (Limits small_state) < Hard (Limits small_state)
   \<and> map_option unat (UnusedConnKeepaliveTimeout small_state) = Some 30
   \<and> idle_keepalive_timeout_spec 4 2 5 10 120 = 30"
proof -
  have wf: "Soft (Limits small_state) < Hard (Limits small_state)"
    by (simp add: small_state_def governor_defs)
  have nov: "Counter small_state \<le> Soft (Limits small_state) \<or>
       (unat (MaxUnusedConnKeepaliveTimeout small_state)
           * unat (ExceedLimit (Delta (Limits small_state))
                (ExceedLimit (Counter small_state) (Soft (Limits small_state)))) < 2 ^ 64
        \<and> Delta (Limits small_state) + 1 \<noteq> 0)"
    by (simp add: small_state_def governor_defs)
  show ?thesis
    using wf keepalive_formula [OF wf nov]
    by (simp add: small_state_def governor_defs idle_keepalive_timeout_spec_def)
qed

text \<open>
  Claim C10, as stated: for every counter value and every pair of limits the function
  returns a value between the bounds whenever \<open>counter > soft\<close>.  With limits \<open>soft = 0\<close>
  and \<open>hard = 2^64 - 1\<close> the divisor \<open>d + 1\<close> wraps to zero; with one live socket the
  function divides by zero and returns no value.
\<close>

theorem keepalive_bounds_counterexample:
  "MinUnusedConnKeepaliveTimeout full_range_state \<le> MaxUnusedConnKeepaliveTimeout full_range_state
   \<and> Soft (Limits full_range_state) < Hard (Limits full_range_state)
   \<and> Soft (Limits full_range_state) < Counter full_range_state
   \<and> UnusedConnKeepaliveTimeout full_range_state = None"
  by (simp add: full_range_state_def governor_defs)

text \<open>
  Claim C10, amended: for every counter value, every pair of limits whose difference
  \<open>d = hard - soft\<close> is not \<open>2^64 - 1\<close> (so that \<open>d + 1\<close> is not zero in \<open>size_t\<close>) and
  all keep-alive bounds with \<open>min_keepalive_s \<le> max_keepalive_s\<close>, the function returns
  a value \<open>v\<close> with \<open>min_keepalive_s \<le> v \<le> max_keepalive_s\<close> whenever \<open>counter > soft\<close>,
  and exactly \<open>max_keepalive_s\<close> whenever \<open>counter \<le> soft\<close>.  This holds also where the
  product wraps around.
\<close>

theorem keepalive_bounds:
  assumes "MinUnusedConnKeepaliveTimeout s \<le> MaxUnusedConnKeepaliveTimeout s"
    and "Delta (Limits s) + 1 \<noteq> 0"
  shows "if Soft (Limits s) < Counter s
         then (\<exists>v. UnusedConnKeepaliveTimeout s = Some v
                 \<and> MinUnusedConnKeepaliveTimeout s \<le> v \<and> v \<le> MaxUnusedConnKeepaliveTimeout s)
         else UnusedConnKeepaliveTimeout s = Some (MaxUnusedConnKeepaliveTimeout s)"
proof (cases "Soft (Limits s) < Counter s")
  case True
  let ?d = "Delta (Limits s)"
  let ?e = "ExceedLimit (Counter s) (Soft (Limits s))"
  let ?q = "(ucast (MaxUnusedConnKeepaliveTimeout s) * ExceedLimit ?d ?e) div (?d + 1)"
  from True have e: "?e \<noteq> 0" by (simp add: ExceedLimit_eq_0 not_le)
  have "unat (ucast ?q :: unsigned_int) \<le> unat (MaxUnusedConnKeepaliveTimeout s)"
    using assms(2) by (simp add: keepalive_narrow keepalive_quotient_le)
  then have r: "(ucast ?q :: unsigned_int) \<le> MaxUnusedConnKeepaliveTimeout s"
    by (simp add: word_le_nat_alt)
  have "UnusedConnKeepaliveTimeout s = Some (max (ucast ?q) (MinUnusedConnKeepaliveTimeout s))"
    using e assms(2)
    by (simp add: UnusedConnKeepaliveTimeout_def In_ExceedSoftLimit_def DeltaLimit_def Let_def)
  with r assms(1) True show ?thesis by simp
next
  case False
  then have "ExceedLimit (Counter s) (Soft (Limits s)) = 0"
    by (simp add: ExceedLimit_eq_0 not_less)
  with False show ?thesis
    by (simp add: UnusedConnKeepaliveTimeout_def In_ExceedSoftLimit_def Let_def)
qed

theorem keepalive_bounds_witness:
  "MinUnusedConnKeepaliveTimeout unbounded_hard_state \<le> MaxUnusedConnKeepaliveTimeout unbounded_hard_state
   \<and> Delta (Limits unbounded_hard_state) + 1 \<noteq> 0
   \<and> Soft (Limits unbounded_hard_state) < Counter unbounded_hard_state
   \<and> (\<exists>v. UnusedConnKeepaliveTimeout unbounded_hard_state = Some v
          \<and> MinUnusedConnKeepaliveTimeout unbounded_hard_state \<le> v
          \<and> v \<le> MaxUnusedConnKeepaliveTimeout unbounded_hard_state)"
proof -
  have b: "MinUnusedConnKeepaliveTimeout unbounded_hard_state
           \<le> MaxUnusedConnKeepaliveTimeout unbounded_hard_state"
    by (simp add: unbounded_hard_state_def governor_defs)
  have d: "Delta (Limits unbounded_hard_state) + 1 \<noteq> 0"
    by (simp add: unbounded_hard_state_def governor_defs)
  have c: "Soft (Limits unbounded_hard_state) < Counter unbounded_hard_state"
    by (simp add: unbounded_hard_state_def governor_defs)
  from keepalive_bounds [OF b d] c b d show ?thesis by simp
qed

section \<open>Facts about hostname matching\<close>

text \<open>What \<open>to_lower\<close> returns: whether the string holds an ASCII capital letter.\<close>

lemma AsciiToLower_fixed:
  "AsciiToLower c = c \<longleftrightarrow> \<not> (65 \<le> (of_char c :: nat) \<and> (of_char c :: nat) \<le> 90)"
proof (cases "65 \<le> (of_char c :: nat) \<and> (of_char c :: nat) \<le> 90")
  case True
  then have "of_char (AsciiToLower c) = (of_char c + 32 :: nat)"
    by (simp add: AsciiToLower_def)
  then have "(of_char (AsciiToLower c) :: nat) \<noteq> of_char c" by simp
  then have "AsciiToLower c \<noteq> c" by auto
  with True show ?thesis by simp
next
  case False
  then show ?thesis by (auto simp: AsciiToLower_def)
qed

lemma to_lower_changed:
  "fst (to_lower s) \<longleftrightarrow> (\<exists>c\<in>set s. 65 \<le> (of_char c :: nat) \<and> (of_char c :: nat) \<le> 90)"
  by (induction s) (auto simp: to_lower_def AsciiToLower_fixed)

lemma EqualNoCase_flags:
  "EqualNoCase a b \<longleftrightarrow>
     length a = length b
     \<and> ((\<exists>c\<in>set a. 65 \<le> (of_char c :: nat) \<and> (of_char c :: nat) \<le> 90)
        \<longleftrightarrow> (\<exists>c\<in>set b. 65 \<le> (of_char c :: nat) \<and> (of_char c :: nat) \<le> 90))"
  by (simp add: EqualNoCase_def to_lower_changed)

lemma EqualNoCase_Nil: "EqualNoCase [] r \<longleftrightarrow> r = []"
  by (auto simp: EqualNoCase_def)

lemma char_eq_char_of: "c = char_of (n :: nat) \<longleftrightarrow> take_bit 8 n = of_char c"
  using char_of_eq_iff [of n c] by (simp add: eq_commute)

text \<open>
  Claim C1: the matching is case-insensitive, and \<open>MatchDomainName\<close> is true exactly when
  the template equals the hostname ignoring ASCII case or the first label of the template
  is \<open>*\<close> and the remaining labels agree ignoring ASCII case.  The code does not do that:
  \<open>EqualNoCase\<close> compares the flags that the two calls of \<open>to_lower\<close> return.  For the
  names of scenario S3 of the specification, a certificate for \<open>b.example.com\<close> and the
  host \<open>a.example.com\<close>, both of one length and without a capital letter, the code reports
  a match where the claim has none; for the certificate name \<open>example.com\<close> and the host
  \<open>Example.COM\<close> the code reports no match where the claim has one; and the wildcard
  \<open>*.example.com\<close> is accepted for \<open>api.example.org\<close>.
\<close>

theorem MatchDomainName_compares_flags:
  "MatchDomainName ''b.example.com'' ''a.example.com''
   \<and> \<not> MatchDomainName_spec ''b.example.com'' ''a.example.com''
   \<and> \<not> MatchDomainName ''example.com'' ''Example.COM''
   \<and> MatchDomainName_spec ''example.com'' ''Example.COM''
   \<and> MatchDomainName ''*.example.com'' ''api.example.org''
   \<and> \<not> MatchDomainName_spec ''*.example.com'' ''api.example.org''"
  by (simp add: MatchDomainName_def MatchDomainName_spec_def NextTok_def EqualNoCase_def
      equal_ignoring_case_def to_lower_def AsciiToLower_def char_eq_char_of char_of_eq_iff)

lemma rest_Nil_iff: "snd (NextTok d s) = [] \<longleftrightarrow> d \<notin> set (butlast s)"
  by (induction s) (auto simp: NextTok_def)

text \<open>
  Claim C9, amended: a template consisting of the single label \<open>*\<close> matches a hostname
  exactly when the hostname has no dot before its last character.  So it matches every
  hostname of exactly one label, and of the hostnames containing a dot it matches those
  whose only dot is the last character (such as \<open>foo.\<close>) and no other.
\<close>

theorem bare_wildcard:
  "MatchDomainName ''*'' name \<longleftrightarrow> CHR ''.'' \<notin> set (butlast name)"
proof -
  have "NextTok CHR ''.'' ''*'' = (''*'', [])" by (simp add: NextTok_def)
  then have "MatchDomainName ''*'' name \<longleftrightarrow> snd (NextTok CHR ''.'' name) = []"
    by (simp add: MatchDomainName_def EqualNoCase_Nil)
  then show ?thesis by (simp add: rest_Nil_iff)
qed

text \<open>
  Claim C9, as stated: the template \<open>*\<close> matches no hostname containing a dot.  The
  hostname \<open>foo.\<close> contains a dot and is matched.
\<close>

theorem bare_wildcard_counterexample:
  "CHR ''.'' \<in> set ''foo.'' \<and> MatchDomainName ''*'' ''foo.''"
  by (simp add: MatchDomainName_def NextTok_def EqualNoCase_def to_lower_def)

section \<open>Facts about the output connection pool\<close>

lemma MaxConnId_SetQueue [simp]: "MaxConnId (Cache (SetQueue i q st)) = MaxConnId (Cache st)"
  by (simp add: SetQueue_def)

lemma MaxConnId_OnPurgeSocket [simp]: "MaxConnId (Cache (OnPurgeSocket st)) = MaxConnId (Cache st)"
  by (simp add: OnPurgeSocket_def)

lemma MaxConnId_PurgeWhile [simp]: "MaxConnId (Cache (PurgeWhile n i st)) = MaxConnId (Cache st)"
  by (induction n i st rule: PurgeWhile.induct) (auto split: option.splits)

lemma MaxConnId_PurgeQueue [simp]: "MaxConnId (Cache (PurgeQueue f i st)) = MaxConnId (Cache st)"
  by (auto simp: PurgeQueue_def Let_def split: option.splits)

lemma Lst_PurgeWhile:
  "Lst (Cache (PurgeWhile n i st)) j
     = (if j = i then drop n (Lst (Cache st) i) else Lst (Cache st) j)"
proof (induction n arbitrary: st)
  case 0
  then show ?case by simp
next
  case (Suc n)
  show ?case
  proof (cases "Lst (Cache st) i")
    case Nil
    then show ?thesis by (simp add: Dequeue_def)
  next
    case (Cons x xs)
    then show ?thesis
      by (simp add: Dequeue_def Suc.IH SetQueue_def OnPurgeSocket_def)
  qed
qed

lemma CachedSockets_PurgeWhile:
  "CachedSockets (Cache (PurgeWhile n i st))
     = CachedSockets (Cache st) - of_nat (min n (length (Lst (Cache st) i)))"
proof (induction n arbitrary: st)
  case 0
  then show ?case by simp
next
  case (Suc n)
  show ?case
  proof (cases "Lst (Cache st) i")
    case Nil
    then show ?thesis by (simp add: Dequeue_def)
  next
    case (Cons x xs)
    then show ?thesis
      by (simp add: Dequeue_def Suc.IH SetQueue_def OnPurgeSocket_def)
  qed
qed

lemma Shutdown_PurgeWhile [simp]: "Shutdown (Cache (PurgeWhile n i st)) = Shutdown (Cache st)"
  by (induction n i st rule: PurgeWhile.induct)
     (auto simp: SetQueue_def OnPurgeSocket_def split: option.splits)

lemma Shutdown_PurgeQueue [simp]: "Shutdown (Cache (PurgeQueue f i st)) = Shutdown (Cache st)"
  by (auto simp: PurgeQueue_def Let_def SetQueue_def OnPurgeSocket_def split: option.splits)

lemma Lst_PurgeQueue:
  "Lst (Cache (PurgeQueue f i st)) j
     = (if j = i then purged f (Lst (Cache st) i) else Lst (Cache st) j)"
  by (cases "Lst (Cache st) i")
     (auto simp: PurgeQueue_def purged_def Let_def Lst_PurgeWhile Dequeue_def Enqueue_def
        SetQueue_def OnPurgeSocket_def)

lemma CachedSockets_PurgeQueue:
  "CachedSockets (Cache (PurgeQueue f i st))
     = CachedSockets (Cache st) - of_nat (removed f (Lst (Cache st) i))"
  by (cases "Lst (Cache st) i")
     (auto simp: PurgeQueue_def purged_def removed_def Let_def CachedSockets_PurgeWhile
        Dequeue_def Enqueue_def SetQueue_def OnPurgeSocket_def min_def)


lemma PurgeLoop_Shutdown: "Shutdown (Cache st) \<Longrightarrow> PurgeLoop f i st = st"
  by (simp add: PurgeLoop.simps)

lemma Lst_PurgeLoop:
  "\<not> Shutdown (Cache st) \<Longrightarrow>
   Lst (Cache (PurgeLoop f i st)) j =
     (if i \<le> j \<and> j < unat (MaxConnId (Cache st)) then purged f (Lst (Cache st) j)
      else Lst (Cache st) j)"
proof (induction f i st rule: PurgeLoop.induct)
  case (1 f i st)
  show ?case
  proof (cases "i < unat (MaxConnId (Cache st))")
    case True
    with "1.prems" have
      "Lst (Cache (PurgeLoop f i st)) j = Lst (Cache (PurgeLoop f (Suc i) (PurgeQueue f i st))) j"
      by (simp add: PurgeLoop.simps [of f i st])
    also have "\<dots> =
      (if Suc i \<le> j \<and> j < unat (MaxConnId (Cache st))
       then purged f (Lst (Cache (PurgeQueue f i st)) j)
       else Lst (Cache (PurgeQueue f i st)) j)"
      using "1.IH" True "1.prems" by simp
    also have "\<dots> =
      (if i \<le> j \<and> j < unat (MaxConnId (Cache st)) then purged f (Lst (Cache st) j)
       else Lst (Cache st) j)"
      using True by (auto simp: Lst_PurgeQueue)
    finally show ?thesis .
  next
    case False
    then show ?thesis by (auto simp: PurgeLoop.simps [of f i st])
  qed
qed

lemma CachedSockets_PurgeLoop:
  "\<not> Shutdown (Cache st) \<Longrightarrow>
   CachedSockets (Cache (PurgeLoop f i st)) =
     CachedSockets (Cache st)
       - of_nat (\<Sum>j = i..<unat (MaxConnId (Cache st)). removed f (Lst (Cache st) j))"
proof (induction f i st rule: PurgeLoop.induct)
  case (1 f i st)
  let ?M = "unat (MaxConnId (Cache st))"
  show ?case
  proof (cases "i < ?M")
    case True
    have same: "(\<Sum>j = Suc i..<?M. removed f (Lst (Cache (PurgeQueue f i st)) j))
              = (\<Sum>j = Suc i..<?M. removed f (Lst (Cache st) j))"
      by (rule sum.cong) (auto simp: Lst_PurgeQueue)
    have split: "(\<Sum>j = i..<?M. removed f (Lst (Cache st) j))
       = removed f (Lst (Cache st) i) + (\<Sum>j = Suc i..<?M. removed f (Lst (Cache st) j))"
      using True by (simp add: sum.atLeast_Suc_lessThan)
    from True "1.prems" have
      "CachedSockets (Cache (PurgeLoop f i st))
         = CachedSockets (Cache (PurgeLoop f (Suc i) (PurgeQueue f i st)))"
      by (simp add: PurgeLoop.simps [of f i st])
    also have "\<dots> = CachedSockets (Cache (PurgeQueue f i st))
        - of_nat (\<Sum>j = Suc i..<?M. removed f (Lst (Cache (PurgeQueue f i st)) j))"
      using "1.IH" True "1.prems" by simp
    also have "\<dots> = CachedSockets (Cache st)
        - of_nat (\<Sum>j = i..<?M. removed f (Lst (Cache st) j))"
      by (simp add: same split CachedSockets_PurgeQueue)
    finally show ?thesis .
  next
    case False
    then show ?thesis by (simp add: PurgeLoop.simps [of f i st])
  qed
qed

lemma unat_Size: "length q < 2 ^ 64 \<Longrightarrow> unat (Size q) = length q"
  by (simp add: Size_def unat_of_nat)

lemma unat_drop_bit8: "unat (drop_bit 8 (w :: size_t)) = unat w div 256"
  by (simp add: drop_bit_eq_div unat_div)

lemma unat_share:
  assumes q: "length q < 2 ^ 56" and f: "f \<le> 256"
  shows "unat (drop_bit 8 (Size q * f)) = length q * unat f div 256"
proof -
  from q have len: "unat (Size q) = length q" by (simp add: unat_Size)
  from f have "unat f \<le> 256" by (simp add: word_le_nat_alt)
  then have "length q * unat f \<le> length q * 256" by (rule mult_le_mono2)
  also have "\<dots> < 2 ^ 56 * 256" using q by simp
  finally have "unat (Size q) * unat f < 2 ^ 64" by (simp add: len)
  then have "unat (Size q * f) = length q * unat f"
    by (simp add: unat_mult_lem [THEN iffD1] len)
  then show ?thesis by (simp add: unat_drop_bit8)
qed

lemma share_le:
  fixes n f :: nat
  assumes "f \<le> 256"
  shows "n * f div 256 \<le> n"
proof -
  have "n * f \<le> n * 256" using assms by (rule mult_le_mono2)
  then have "n * f div 256 \<le> n * 256 div 256" by (rule div_le_mono)
  then show ?thesis by simp
qed

lemma purged_nat:
  assumes q: "length q < 2 ^ 56" and f: "f \<le> 256" and ne: "q \<noteq> []"
  shows "purged f q =
     (if length q * unat f div 256 = 0 then
        (if length q \<le> 2 then
           (if SocketNotClosedByOtherSide (hd q) then tl q @ [hd q] else tl q)
         else drop 1 q)
      else drop (length q * unat f div 256) q)"
proof -
  from q have len: "unat (Size q) = length q" by (simp add: unat_Size)
  with ne have nz: "Size q \<noteq> 0"
    by (auto simp: unat_eq_zero [symmetric])
  have sh: "unat (drop_bit 8 (Size q * f)) = length q * unat f div 256"
    using q f by (rule unat_share)
  have sh0: "drop_bit 8 (Size q * f) = 0 \<longleftrightarrow> length q * unat f div 256 = 0"
    using sh by (simp add: unat_eq_zero [symmetric])
  have le2: "Size q \<le> 2 \<longleftrightarrow> length q \<le> 2"
    by (simp add: word_le_nat_alt len)
  show ?thesis
    using nz ne by (simp add: purged_def Let_def sh sh0 le2 list.case_eq_if)
qed

lemma removed_eq_purge_count:
  assumes q: "length q < 2 ^ 56" and f: "f \<le> 256"
  shows "removed f q = purge_count (unat f) q"
proof (cases "q = []")
  case True
  then show ?thesis by (simp add: removed_def purged_def purge_count_def Size_def)
next
  case False
  have "unat f \<le> 256" using f by (simp add: word_le_nat_alt)
  then have bound: "length q * unat f div 256 \<le> length q" by (rule share_le)
  show ?thesis
    using False bound purged_nat [OF q f False]
    by (cases q) (auto simp: removed_def purge_count_def Let_def)
qed

lemma frac256_of_le: "frac256_of s \<le> 256"
  by (simp add: frac256_of_def)

lemma unat_frac256_of:
  assumes e: "unat (Out_ExceedSoftLimit s) < 2 ^ 56" and c: "CachedSockets s + 1 \<noteq> 0"
  shows "unat (frac256_of s)
       = purge_fraction (unat (Out_ExceedSoftLimit s)) (unat (CachedSockets s))"
proof -
  have "unat (Out_ExceedSoftLimit s) * 256 < 2 ^ 56 * 256" using e by simp
  then have "unat (push_bit 8 (Out_ExceedSoftLimit s)) = unat (Out_ExceedSoftLimit s) * 256"
    by (simp add: push_bit_eq_mult unat_mult_lem [THEN iffD1])
  moreover have "unat (max a b) = max (unat a) (unat b)" for a b :: size_t
    by (simp add: max_def word_le_nat_alt)
  moreover have "unat (min a b) = min (unat a) (unat b)" for a b :: size_t
    by (simp add: min_def word_le_nat_alt)
  ultimately show ?thesis
    using c by (simp add: frac256_of_def purge_fraction_def unat_div unat_succ)
qed


lemma removed_le: "removed f q \<le> length q"
  by (simp add: removed_def)

lemma purge_count_pos: "2 < length q \<Longrightarrow> 0 < purge_count f q"
  by (auto simp: purge_count_def Let_def)

lemmas purge_defs =
  PurgeCache_def frac256_of_def Out_ExceedSoftLimit_def TotalSockets_def ExceedLimit_def
  PurgeLoop.simps PurgeQueue_def Size_def Dequeue_def Enqueue_def SetQueue_def OnPurgeSocket_def
  Let_def sock_def

text \<open>
  Claim C3, as stated: of every non-empty queue with index below \<open>max_host_id\<close> the purger
  removes \<open>ceil(queue_size * fraction / 256)\<close> entries.  In a pool with limit \<open>soft = 1\<close>
  and one queue of three live idle connections the fraction is 128; the claim asks for
  \<open>ceil(3 * 128 / 256) = 2\<close> removals, the code removes one entry.
\<close>

theorem purge_removes_counterexample:
  "map_option (\<lambda>st. length (Lst three_cached 0) - length (Lst (Cache st) 0)) (PurgeCache three_cached) = Some 1
   \<and> ceiling_div
        (length (Lst three_cached 0)
           * purge_fraction (unat (Out_ExceedSoftLimit three_cached)) (unat (CachedSockets three_cached)))
        256 = 2"
  by (simp add: three_cached_def purge_defs ceiling_div_def purge_fraction_def)

text \<open>
  Claim C3, amended: on a purge run that is not shut down, in a pool whose counter
  \<open>cached\<close> is not \<open>-1\<close> and whose excess over the soft limit is below \<open>2^56\<close>, for every
  queue of fewer than \<open>2^56\<close> entries with index in \<open>[0, max_host_id)\<close> the purger removes
  \<open>floor(queue_size * fraction / 256)\<close> entries if that number is positive; otherwise one
  entry if the queue holds more than two; otherwise (a queue of one or two entries) the
  first entry if its peer has closed it and no entry if it is alive; where
  \<open>fraction = clamp(256/32, (excess_over_soft_limit * 256) / (cached + 1), 256)\<close>.
\<close>

theorem purge_removes:
  assumes run: "\<not> Shutdown s"
    and c: "CachedSockets s + 1 \<noteq> 0"
    and e: "unat (Out_ExceedSoftLimit s) < 2 ^ 56"
    and i: "i < unat (MaxConnId s)"
    and q: "length (Lst s i) < 2 ^ 56"
  shows "\<exists>st. PurgeCache s = Some st
           \<and> length (Lst (Cache st) i)
             = length (Lst s i)
               - purge_count
                   (purge_fraction (unat (Out_ExceedSoftLimit s)) (unat (CachedSockets s)))
                   (Lst s i)"
proof -
  let ?st0 = "\<lparr>Cache = s, processed = 0, SleptMs = 0\<rparr>"
  let ?st = "PurgeLoop (frac256_of s) 0 ?st0"
  have "PurgeCache s = Some ?st" using c by (simp add: PurgeCache_def)
  moreover have "Lst (Cache ?st) i = purged (frac256_of s) (Lst s i)"
    using run i by (simp add: Lst_PurgeLoop)
  moreover have "removed (frac256_of s) (Lst s i)
      = purge_count (purge_fraction (unat (Out_ExceedSoftLimit s)) (unat (CachedSockets s))) (Lst s i)"
    using q by (simp add: removed_eq_purge_count frac256_of_le unat_frac256_of [OF e c])
  moreover have "length (purged (frac256_of s) (Lst s i))
      = length (Lst s i) - removed (frac256_of s) (Lst s i)"
  proof -
    have "length (purged (frac256_of s) (Lst s i)) \<le> length (Lst s i)"
      by (cases "Lst s i")
         (auto simp: purged_def Let_def)
    then show ?thesis by (simp add: removed_def)
  qed
  ultimately show ?thesis by simp
qed

theorem purge_removes_witness:
  "\<exists>st. PurgeCache three_cached = Some st \<and> length (Lst (Cache st) 0) = 2"
proof -
  have run: "\<not> Shutdown three_cached" by (simp add: three_cached_def)
  have c: "CachedSockets three_cached + 1 \<noteq> 0" by (simp add: three_cached_def)
  have e: "unat (Out_ExceedSoftLimit three_cached) < 2 ^ 56"
    by (simp add: three_cached_def Out_ExceedSoftLimit_def TotalSockets_def ExceedLimit_def)
  have i: "0 < unat (MaxConnId three_cached)" by (simp add: three_cached_def)
  have q: "length (Lst three_cached 0) < 2 ^ 56" by (simp add: three_cached_def)
  have n: "length (Lst three_cached 0)
             - purge_count
                 (purge_fraction (unat (Out_ExceedSoftLimit three_cached))
                    (unat (CachedSockets three_cached)))
                 (Lst three_cached 0) = 2"
    by (simp add: three_cached_def purge_count_def purge_fraction_def Let_def
        Out_ExceedSoftLimit_def TotalSockets_def ExceedLimit_def)
  from purge_removes [OF run c e i q] n show ?thesis by simp
qed

lemma sum_pos_iff_nat:
  fixes g :: "nat \<Rightarrow> nat"
  shows "0 < (\<Sum>j<n. g j) \<longleftrightarrow> (\<exists>j<n. 0 < g j)"
  by (induction n) (auto simp: less_Suc_eq)

text \<open>
  Claim C4, as stated: a purge run on a non-empty cache strictly decreases \<open>cached_count\<close>.
  In a pool that caches one live connection (fraction 128) the run checks the connection,
  puts it back and leaves \<open>cached_count\<close> at 1.
\<close>

theorem purge_cached_count_counterexample:
  "0 < CachedSockets one_cached \<and> \<not> Shutdown one_cached
   \<and> map_option (\<lambda>st. CachedSockets (Cache st)) (PurgeCache one_cached)
       = Some (CachedSockets one_cached)"
  by (simp add: one_cached_def purge_defs)

lemma cached_count_after_purge:
  assumes c: "unat (CachedSockets s) < 2 ^ 56"
    and inv: "(\<Sum>j<unat (MaxConnId s). length (Lst s j)) \<le> unat (CachedSockets s)"
  shows "\<exists>st. PurgeCache s = Some st
           \<and> CachedSockets (Cache st) \<le> CachedSockets s
           \<and> (CachedSockets (Cache st) < CachedSockets s \<longleftrightarrow>
                \<not> Shutdown s
                \<and> (\<exists>i<unat (MaxConnId s). 0 < purge_count (unat (frac256_of s)) (Lst s i)))"
proof -
  let ?M = "unat (MaxConnId s)"
  let ?f = "frac256_of s"
  let ?st0 = "\<lparr>Cache = s, processed = 0, SleptMs = 0\<rparr>"
  let ?st = "PurgeLoop ?f 0 ?st0"
  let ?K = "\<Sum>j<?M. purge_count (unat ?f) (Lst s j)"
  have "unat (CachedSockets s + 1) = (unat (CachedSockets s) + 1) mod 2 ^ 64"
    by (simp add: unat_word_ariths)
  also have "\<dots> = unat (CachedSockets s) + 1" using c by simp
  finally have nz: "CachedSockets s + 1 \<noteq> 0"
    by (auto simp: unat_eq_zero [symmetric])
  then have res: "PurgeCache s = Some ?st" by (simp add: PurgeCache_def)
  show ?thesis
  proof (cases "Shutdown s")
    case True
    then have "CachedSockets (Cache ?st) = CachedSockets s"
      by (simp add: PurgeLoop_Shutdown)
    with res True show ?thesis by simp
  next
    case False
    have len: "length (Lst s j) < 2 ^ 56" if "j < ?M" for j
    proof -
      have "length (Lst s j) \<le> (\<Sum>j<?M. length (Lst s j))"
        using that by (intro member_le_sum) auto
      with inv c show ?thesis by simp
    qed
    have rem: "removed ?f (Lst s j) = purge_count (unat ?f) (Lst s j)" if "j < ?M" for j
      using len [OF that] by (simp add: removed_eq_purge_count frac256_of_le)
    define K where "K = (\<Sum>j<?M. purge_count (unat ?f) (Lst s j))"
    have "(\<Sum>j = 0..<?M. removed ?f (Lst s j)) = K"
      unfolding atLeast0LessThan K_def by (rule sum.cong) (auto simp: rem)
    with False have cs: "CachedSockets (Cache ?st) = CachedSockets s - of_nat K"
      by (simp add: CachedSockets_PurgeLoop)
    have "K = (\<Sum>j<?M. removed ?f (Lst s j))"
      unfolding K_def by (rule sum.cong) (auto simp: rem)
    also have "\<dots> \<le> (\<Sum>j<?M. length (Lst s j))"
      by (rule sum_mono) (rule removed_le)
    finally have K: "K \<le> unat (CachedSockets s)" using inv by simp
    then have uK: "unat (of_nat K :: size_t) = K" by (rule le_unat_uoi)
    with K have "(of_nat K :: size_t) \<le> CachedSockets s" by (simp add: word_le_nat_alt)
    then have "unat (CachedSockets (Cache ?st)) = unat (CachedSockets s) - K"
      by (simp add: cs unat_sub uK)
    with K have "CachedSockets (Cache ?st) \<le> CachedSockets s"
      and "CachedSockets (Cache ?st) < CachedSockets s \<longleftrightarrow> 0 < K"
      by (auto simp: word_le_nat_alt word_less_nat_alt)
    moreover have "0 < K \<longleftrightarrow> (\<exists>i<?M. 0 < purge_count (unat ?f) (Lst s i))"
      unfolding K_def by (rule sum_pos_iff_nat)
    ultimately show ?thesis using res False by simp
  qed
qed

text \<open>
  Claim C4, amended: in a pool that caches fewer than \<open>2^56\<close> connections and whose
  counter \<open>cached_count\<close> is not below the number of entries in the queues with index below
  \<open>max_host_id\<close>, a purge run always terminates and never increases \<open>cached_count\<close>.  It
  strictly decreases \<open>cached_count\<close> exactly when it is not shut down and some queue with
  index below \<open>max_host_id\<close> loses an entry: a queue whose share
  \<open>floor(queue_size * fraction / 256)\<close> is positive, or that holds more than two entries,
  or whose first entry was closed by its peer.  In particular it does so whenever it is
  not shut down and one of these queues holds more than two entries.
\<close>

theorem purge_cached_count:
  assumes c: "unat (CachedSockets s) < 2 ^ 56"
    and inv: "(\<Sum>j<unat (MaxConnId s). length (Lst s j)) \<le> unat (CachedSockets s)"
  shows "\<exists>st. PurgeCache s = Some st
           \<and> CachedSockets (Cache st) \<le> CachedSockets s
           \<and> (CachedSockets (Cache st) < CachedSockets s \<longleftrightarrow>
                \<not> Shutdown s
                \<and> (\<exists>i<unat (MaxConnId s). 0 < purge_count (unat (frac256_of s)) (Lst s i)))
           \<and> (\<not> Shutdown s \<and> (\<exists>i<unat (MaxConnId s). 2 < length (Lst s i))
                \<longrightarrow> CachedSockets (Cache st) < CachedSockets s)"
proof -
  from cached_count_after_purge [OF c inv] obtain st where
    st: "PurgeCache s = Some st" "CachedSockets (Cache st) \<le> CachedSockets s"
      "CachedSockets (Cache st) < CachedSockets s \<longleftrightarrow>
         \<not> Shutdown s
         \<and> (\<exists>i<unat (MaxConnId s). 0 < purge_count (unat (frac256_of s)) (Lst s i))"
    by blast
  have "CachedSockets (Cache st) < CachedSockets s"
    if "\<not> Shutdown s" and "\<exists>i<unat (MaxConnId s). 2 < length (Lst s i)"
  proof -
    from that(2) obtain i where "i < unat (MaxConnId s)" "2 < length (Lst s i)" by blast
    then have "\<exists>i<unat (MaxConnId s). 0 < purge_count (unat (frac256_of s)) (Lst s i)"
      using purge_count_pos by blast
    with that(1) st(3) show ?thesis by simp
  qed
  with st show ?thesis by blast
qed

theorem purge_cached_count_witness:
  "\<exists>st. PurgeCache two_hosts = Some st \<and> CachedSockets (Cache st) < CachedSockets two_hosts"
proof -
  have M: "unat (MaxConnId two_hosts) = Suc (Suc 0)" by (simp add: two_hosts_def)
  have c: "unat (CachedSockets two_hosts) < 2 ^ 56" by (simp add: two_hosts_def)
  have "(\<Sum>j<Suc (Suc 0). length (Lst two_hosts j)) = 4" by (simp add: two_hosts_def)
  moreover have "unat (CachedSockets two_hosts) = 4" by (simp add: two_hosts_def)
  ultimately have inv:
    "(\<Sum>j<unat (MaxConnId two_hosts). length (Lst two_hosts j)) \<le> unat (CachedSockets two_hosts)"
    by (simp only: M)
  have "length (Lst two_hosts 1) = 3" by (simp add: two_hosts_def)
  then have "0 < purge_count (unat (frac256_of two_hosts)) (Lst two_hosts 1)"
    by (simp add: purge_count_pos)
  then have "\<exists>i<unat (MaxConnId two_hosts).
      0 < purge_count (unat (frac256_of two_hosts)) (Lst two_hosts i)"
    unfolding M by (intro exI [of _ 1]) simp
  moreover have "\<not> Shutdown two_hosts" by (simp add: two_hosts_def)
  ultimately show ?thesis using purge_cached_count [OF c inv] by auto
qed

lemma ConnectRetry_not_limit:
  "fst (ConnectRetry c addr res ret delay checkpoint polls s w) \<noteq> Some (Inl OutputLimitReached)"
proof (induction polls arbitrary: ret delay checkpoint s w)
  case Nil
  show ?case
    by (subst ConnectRetry.simps)
       (auto simp: Let_def NewConnection_def split: option.splits prod.splits if_splits)
next
  case (Cons r polls)
  show ?case
    by (subst ConnectRetry.simps)
       (auto simp: Let_def NewConnection_def Cons.IH split: option.splits prod.splits if_splits)
qed

lemmas connect_defs =
  Connect_def Out_ExceedHardLimit_def TotalSockets_def ExceedLimit_def ConnList_def
  SetConnList_def ExecutorCreate_def Schedule_def NewConnection_def Size_def Let_def
  empty_pool_def quiet_world_def ready_cont_def sock_def

text \<open>
  Claim C2, as stated: with \<open>hard = 1\<close> and exactly one connection handed out (\<open>active = 1\<close>,
  \<open>cached = 0\<close>) a second acquire for a new host fails with the limit error without
  attempting a socket.  The check of \<open>Connect\<close> is \<open>active + cached > hard\<close>, and \<open>1 > 1\<close>
  is false: with a coroutine whose connect succeeds at once the second acquire creates a
  socket, schedules a connector job and returns a connection, and two are handed out.
\<close>

theorem Connect_hard_limit_counterexample:
  "Hard (OutLimits one_in_flight) = 1
   \<and> ActiveSockets one_in_flight = 1 \<and> CachedSockets one_in_flight = 0
   \<and> fst (Connect (Some (ready_cont 4)) \<lparr>HostId = 1\<rparr> one_in_flight quiet_world)
       = Some (Inr \<lparr>Socket = sock 4 True, ReUsed = False, Host = \<lparr>HostId = 1\<rparr>\<rparr>)
   \<and> ActiveSockets (fst (snd (Connect (Some (ready_cont 4)) \<lparr>HostId = 1\<rparr> one_in_flight quiet_world))) = 2
   \<and> snd (snd (Connect (Some (ready_cont 4)) \<lparr>HostId = 1\<rparr> one_in_flight quiet_world))
       = \<lparr>SocketsCreated = 1, Jobs = [TConnector \<lparr>HostId = 1\<rparr>]\<rparr>"
  by (simp add: one_in_flight_def connect_defs)

text \<open>
  Claim C2, amended: an acquire fails with the limit error, without attempting to create a
  socket, without scheduling a job and without changing the pool, whenever
  \<open>active + cached\<close> exceeds \<open>hard\<close>, and never fails with that error otherwise.  With limit
  \<open>hard = 1\<close> that is the case once two connections are counted (for example two handed
  out), not with exactly one handed out.
\<close>

theorem Connect_hard_limit:
  "if Hard (OutLimits s) < TotalSockets s
   then Connect c addr s w = (Some (Inl OutputLimitReached), s, w)
   else fst (Connect c addr s w) \<noteq> Some (Inl OutputLimitReached)"
proof (cases "Hard (OutLimits s) < TotalSockets s")
  case True
  then have "Out_ExceedHardLimit s \<noteq> 0"
    by (simp add: Out_ExceedHardLimit_def ExceedLimit_eq_0 not_le)
  with True show ?thesis by (simp add: Connect_def)
next
  case False
  then have "Out_ExceedHardLimit s = 0"
    by (simp add: Out_ExceedHardLimit_def ExceedLimit_eq_0 not_less)
  with False show ?thesis
    by (auto simp: Connect_def Let_def NewConnection_def ConnectRetry_not_limit
        split: option.splits prod.splits)
qed

theorem Connect_hard_limit_witness:
  "Hard (OutLimits two_in_flight) = 1
   \<and> ActiveSockets two_in_flight = 2 \<and> CachedSockets two_in_flight = 0
   \<and> Connect (Some (ready_cont 5)) \<lparr>HostId = 2\<rparr> two_in_flight quiet_world
       = (Some (Inl OutputLimitReached), two_in_flight, quiet_world)"
proof -
  have s: "Hard (OutLimits two_in_flight) = 1 \<and> ActiveSockets two_in_flight = 2
           \<and> CachedSockets two_in_flight = 0"
    by (simp add: two_in_flight_def one_in_flight_def connect_defs)
  then have "Hard (OutLimits two_in_flight) < TotalSockets two_in_flight"
    by (simp add: TotalSockets_def)
  with Connect_hard_limit [of two_in_flight "Some (ready_cont 5)" "\<lparr>HostId = 2\<rparr>" quiet_world] s
  show ?thesis by simp
qed

section \<open>Facts about the cooperative bio\<close>

lemma unat_NextTimeout:
  assumes "unat t \<le> 1000000"
  shows "unat (NextTimeout t) = min 1000000 (unat t + unat t div 2)"
proof -
  have d: "drop_bit (Suc 0) t = t div 2" by (simp add: drop_bit_eq_div)
  have h: "unat (t div 2) = unat t div 2" by (simp add: unat_div)
  have "unat t + unat (t div 2) < 2 ^ 64" using assms by (simp add: h)
  then have "unat (t + t div 2) = unat t + unat (t div 2)"
    using unat_add_lem [of t "t div 2"] by simp
  moreover have "unat (min a b) = min (unat a) (unat b)" for a b :: "64 word"
    by (simp add: min_def word_le_nat_alt)
  ultimately show ?thesis by (simp add: NextTimeout_def d h)
qed

lemma ReadT_loop_timeouts:
  assumes "\<forall>e\<in>set waits. \<not> fst e \<and> Status (snd e) = ETIMEDOUT"
  shows "ReadT_loop conn (waits @ evs) =
     (case ReadT_loop (conn\<lparr>Timeout := (NextTimeout ^^ length waits) (Timeout conn)\<rparr>) evs of
        (r, conn', polls) \<Rightarrow>
          (r, conn', map (\<lambda>i. (NextTimeout ^^ i) (Timeout conn)) [0..<length waits] @ polls))"
  using assms
proof (induction waits arbitrary: conn)
  case Nil
  then show ?case by (simp split: prod.splits)
next
  case (Cons e waits)
  obtain c io where e: "e = (c, io)" by (cases e)
  with Cons.prems have c: "\<not> c" "Status io = ETIMEDOUT" by auto
  have IH: "ReadT_loop (conn\<lparr>Timeout := NextTimeout (Timeout conn)\<rparr>) (waits @ evs) =
     (case ReadT_loop (conn\<lparr>Timeout := (NextTimeout ^^ length waits) (NextTimeout (Timeout conn))\<rparr>) evs of
        (r, conn', polls) \<Rightarrow>
          (r, conn', map (\<lambda>i. (NextTimeout ^^ i) (NextTimeout (Timeout conn))) [0..<length waits] @ polls))"
    using Cons.IH [of "conn\<lparr>Timeout := NextTimeout (Timeout conn)\<rparr>"] Cons.prems by simp
  have m: "map (\<lambda>i. (NextTimeout ^^ i) (Timeout conn)) [0..<Suc (length waits)]
         = Timeout conn # map (\<lambda>i. (NextTimeout ^^ i) (NextTimeout (Timeout conn))) [0..<length waits]"
    by (simp add: upt_rec [of 0] map_Suc_upt [symmetric] funpow_swap1 del: upt_Suc)
  show ?case
    using c by (simp add: e IH m funpow_swap1 split: prod.splits del: upt_Suc)
qed

lemma to_int_small: "unat n < 2 ^ 31 \<Longrightarrow> to_int n = int (unat n)"
proof -
  assume a: "unat n < 2 ^ 31"
  then have "unat n < 2 ^ 32" by simp
  then have "unat n mod 2 ^ 32 = unat n" by (rule mod_less)
  with a show ?thesis unfolding to_int_def Let_def by (simp only: if_True)
qed

text \<open>
  Claim C7, as stated: each read call polls with a timeout that starts at 10 ms.  The
  timeout is a member of the bio and no read resets it: after a first read that timed out
  once (polls of 10 ms and 15 ms), the second read on the same bio starts polling with
  15 ms.
\<close>

theorem cancellable_read_counterexample:
  "fst first_read = Some 5
   \<and> map_option Timeout (fst (snd first_read)) = Some 15000
   \<and> fst second_read = Some 3
   \<and> snd (snd second_read) = [15000]"
  by (simp add: first_read_def second_read_def BIOReadMethod_def fresh_bio_def AcquireCont_def
      TContBIO_init_def timed_out_def got_def NextTimeout_def to_int_small ETIMEDOUT_def)

text \<open>
  Claim C7, amended: in the cancellable read loop of the cooperative bio (a coroutine
  bound, a cancellation flag attached) the poll timeout is a member of the bio: it is
  10 ms after construction, a read call starts with the value the bio holds (the one the
  previous call left), every poll that times out replaces the timeout \<open>t\<close> by
  \<open>min(1 s, t + floor(t / 2))\<close>, so that it never exceeds 1 s afterwards; the flag is read
  before each poll; and the read that finds the flag set returns at once, without a
  further poll, the sentinel \<open>CANCELED_READ = -42\<close>, which differs from the 0 of an
  orderly close, from the \<open>-1\<close> the function returns for an unusable bio, and from every
  count of bytes read (a count below \<open>2^31\<close> is returned as it is).  After \<open>n\<close> polls
  that timed out the polls were made with \<open>t, f(t), ..., f^(n-1)(t)\<close> and the bio holds
  \<open>f^n(t)\<close>.
\<close>

theorem cancellable_read:
  assumes "Cont conn" and "Canceled conn"
    and "\<forall>e\<in>set waits. \<not> fst e \<and> Status (snd e) = ETIMEDOUT"
  shows "BIOReadMethod (Some conn) (waits @ (True, ioStat) # evs)
           = (Some SSL_RVAL_TIMEOUT,
              Some (conn\<lparr>Timeout := (NextTimeout ^^ length waits) (Timeout conn)\<rparr>),
              map (\<lambda>i. (NextTimeout ^^ i) (Timeout conn)) [0..<length waits])
         \<and> SSL_RVAL_TIMEOUT = - 42 \<and> SSL_RVAL_TIMEOUT \<noteq> 0 \<and> SSL_RVAL_TIMEOUT \<noteq> - 1
         \<and> Timeout (TContBIO_init s canceled) = 10000
         \<and> NextTimeout t \<le> 1000000
         \<and> (unat t \<le> 1000000 \<longrightarrow> unat (NextTimeout t) = min 1000000 (unat t + unat t div 2))
         \<and> (unat n < 2 ^ 31 \<longrightarrow> to_int n = int (unat n))"
proof -
  have "ReadT_loop conn (waits @ (True, ioStat) # evs)
          = (Some SSL_RVAL_TIMEOUT,
             conn\<lparr>Timeout := (NextTimeout ^^ length waits) (Timeout conn)\<rparr>,
             map (\<lambda>i. (NextTimeout ^^ i) (Timeout conn)) [0..<length waits])"
    using assms(3) by (simp add: ReadT_loop_timeouts)
  with assms(1,2) have "BIOReadMethod (Some conn) (waits @ (True, ioStat) # evs)
      = (Some SSL_RVAL_TIMEOUT,
         Some (conn\<lparr>Timeout := (NextTimeout ^^ length waits) (Timeout conn)\<rparr>),
         map (\<lambda>i. (NextTimeout ^^ i) (Timeout conn)) [0..<length waits])"
    by (simp add: BIOReadMethod_def)
  moreover have "NextTimeout t \<le> 1000000" by (simp add: NextTimeout_def)
  ultimately show ?thesis
    by (simp add: SSL_RVAL_TIMEOUT_def TContBIO_init_def unat_NextTimeout to_int_small)
qed

theorem cancellable_read_witness:
  "BIOReadMethod (Some fresh_bio) [timed_out, timed_out, (True, \<lparr>Processed = 0, Status = 0\<rparr>)]
     = (Some (- 42), Some (fresh_bio\<lparr>Timeout := 22500\<rparr>), [10000, 15000])"
proof -
  have a: "Cont fresh_bio" "Canceled fresh_bio"
    by (simp_all add: fresh_bio_def AcquireCont_def TContBIO_init_def)
  have w: "\<forall>e\<in>set [timed_out, timed_out]. \<not> fst e \<and> Status (snd e) = ETIMEDOUT"
    by (simp add: timed_out_def)
  have t: "Timeout fresh_bio = 10000"
    by (simp add: fresh_bio_def AcquireCont_def TContBIO_init_def)
  have n: "NextTimeout 10000 = 15000" "NextTimeout 15000 = 22500"
    by (simp_all add: NextTimeout_def)
  from cancellable_read [OF a w, of "\<lparr>Processed = 0, Status = 0\<rparr>" "[]"]
  show ?thesis
    by (simp add: t n SSL_RVAL_TIMEOUT_def numeral_2_eq_2 upt_rec [of 0] upt_rec [of 1])
qed


section \<open>Facts about dropped requests\<close>




end
